theory Spec2Isabelle
  imports Main
begin

section \<open>The stdio holder of the plugin daemon\<close>

text \<open>
  A shallow embedding of package \<open>stdio_holder\<close>: the holder of one plugin child
  process, its error ring (\<open>WriteError\<close>, \<open>Error\<close>), the stderr collector
  (\<open>StartStderr\<close>), the stdout demultiplexer (\<open>StartStdout\<close>), the liveness waiter
  (\<open>Wait\<close>) and the teardown (\<open>Stop\<close>).

  Conventions of the model.
  \<^item> A Go \<open>string\<close> or \<open>[]byte\<close> is a \<open>string\<close> (a list of 8-bit characters), so
    \<open>length\<close> is Go's \<open>len\<close>.
  \<^item> A \<open>time.Time\<close> is an \<open>int\<close>, the reading of the clock in nanoseconds;
    \<open>time.Since t\<close> at the instant \<open>now\<close> is \<open>now - t\<close>, a \<open>time.Duration\<close>.
    Every call of \<open>time.Now\<close> is an argument of the function that makes it.
  \<^item> A panic of the Go runtime is the left summand of the result.
  \<^item> A \<open>func\<close> value stored in a listener map is a handle (a number naming the
    closure); calling it, writing to the log and closing a stream or a channel are
    recorded as effects, in the order in which the code performs them.
  \<^item> Each function is the run of one goroutine. A lemma about a single step holds for
    every state the step may start from, whatever other goroutines did before.
\<close>

subsection \<open>Data\<close>

type_synonym callback = nat

datatype chan = Open | Closed

record holder =
  id_holder :: string
  plugin_identity :: string
  listener :: "string \<rightharpoonup> callback"
  error_listener :: "string \<rightharpoonup> callback"
  started :: bool
  err_message :: string
  last_err_message_updated_at :: int
  health_chan :: chan
  health_chan_closed :: bool
  last_active_at :: int

text \<open>
  The fields \<open>writer\<close>, \<open>reader\<close> and \<open>err_reader\<close> are interface values whose
  state the package never inspects: closing them is an effect, reading them is an input.
  The two mutexes serialise the goroutines and carry no data.
\<close>

record globals =
  stdio_holder :: "string set"
  listeners :: "string \<rightharpoonup> callback"

text \<open>
  \<open>stdio_holder\<close> is the \<open>sync.Map\<close> from holder ids to holders, kept as the set of
  its keys; \<open>listeners\<close> is the process-wide map of broadcast listeners.
\<close>

datatype panic =
  SliceBoundsOutOfRange int int
  | CloseOfClosedChannel

datatype stream = Writer | Reader | ErrReader

datatype effect =
  CloseStream stream
  | CloseChan
  | LogError string
  | LogInfo string
  | CallBroadcast callback string string
  | CallSession callback string

definition Second :: int where
  "Second = 1000000000"

definition newline :: char where
  "newline = CHR 0x0A"

subsection \<open>The error ring\<close>

definition MAX_ERR_MSG_LEN :: int where
  "MAX_ERR_MSG_LEN = 1024"

definition reduce :: "string \<Rightarrow> holder \<Rightarrow> int" where
  "reduce msg s = int (length msg) + int (length (err_message s)) - MAX_ERR_MSG_LEN"

text \<open>
  \<open>s.err_message[reduce:]\<close> panics unless \<open>0 \<le> reduce \<le> len(s.err_message)\<close>; the
  code evaluates it only when \<open>reduce > 0\<close>.
\<close>

definition WriteError :: "int \<Rightarrow> string \<Rightarrow> holder \<Rightarrow> panic + holder" where
  "WriteError now msg s =
     (if reduce msg s > 0 then
        (if reduce msg s > int (length (err_message s))
         then Inl (SliceBoundsOutOfRange (reduce msg s) (int (length (err_message s))))
         else Inr (s\<lparr>err_message := drop (nat (reduce msg s)) (err_message s) @ msg,
                     last_err_message_updated_at := now\<rparr>))
      else Inr (s\<lparr>err_message := err_message s @ msg,
                  last_err_message_updated_at := now\<rparr>))"

definition Error :: "int \<Rightarrow> holder \<Rightarrow> string option" where
  "Error now s =
     (if now - last_err_message_updated_at s < 60 * Second then
        (if err_message s \<noteq> [] then Some (err_message s) else None)
      else None)"

text \<open>
  \<open>WriteErrors\<close> appends a sequence of messages, each with the clock of its call;
  \<open>last_n n xs\<close> is the window of the last \<open>n\<close> elements of \<open>xs\<close>.
\<close>

fun WriteErrors :: "(int \<times> string) list \<Rightarrow> holder \<Rightarrow> panic + holder" where
  "WriteErrors [] s = Inr s"
| "WriteErrors ((t, m) # ms) s =
     (case WriteError t m s of Inl p \<Rightarrow> Inl p | Inr s' \<Rightarrow> WriteErrors ms s')"

definition last_n :: "nat \<Rightarrow> 'a list \<Rightarrow> 'a list" where
  "last_n n xs = drop (length xs - n) xs"

text \<open>A holder as the spawn path leaves it: nothing registered, nothing read yet.\<close>

definition fresh_holder :: holder where
  "fresh_holder =
     \<lparr>id_holder = ''h1'', plugin_identity = ''plugin'',
      listener = Map.empty, error_listener = Map.empty, started = False,
      err_message = [], last_err_message_updated_at = 0,
      health_chan = Open, health_chan_closed = False, last_active_at = 0\<rparr>"

subsection \<open>The stderr collector\<close>

datatype read_error = EOF | OtherError string

text \<open>
  One return of \<open>s.err_reader.Read(buf)\<close>: \<open>got\<close> is \<open>buf[:n]\<close>, \<open>rerr\<close> is the
  error (\<open>None\<close> for \<open>nil\<close>) and \<open>at\<close> is the clock when the loop body runs. The
  buffer has 1024 bytes, so a reader returns \<open>length got \<le> 1024\<close>.
\<close>

record read_result =
  got :: string
  rerr :: "read_error option"
  at :: int

datatype collector = Exited | Reading

text \<open>
  The loop runs over the returns of \<open>Read\<close>, oldest first. \<open>Exited\<close>: the loop reached
  a \<open>break\<close>. \<open>Reading\<close>: every listed return was consumed and the next \<open>Read\<close> has
  not returned.
\<close>

fun StartStderr :: "read_result list \<Rightarrow> holder \<Rightarrow> panic + (collector \<times> holder)" where
  "StartStderr [] s = Inr (Reading, s)"
| "StartStderr (r # rs) s =
     (if rerr r \<noteq> None \<and> rerr r \<noteq> Some EOF then Inr (Exited, s)
      else if rerr r \<noteq> None then
        (case WriteError (at r) (got r @ [newline]) s of
           Inl p \<Rightarrow> Inl p
         | Inr s' \<Rightarrow> Inr (Exited, s'))
      else if length (got r) > 0 then
        (case WriteError (at r) (got r @ [newline]) s of
           Inl p \<Rightarrow> Inl p
         | Inr s' \<Rightarrow> StartStderr rs s')
      else StartStderr rs s)"

subsection \<open>Teardown\<close>

text \<open>
  \<open>Close\<close> on the three streams is a call into the stream's own implementation; the
  model records the call and takes it to return. \<open>close\<close> of a channel that is already
  closed panics.
\<close>

definition Stop :: "holder \<Rightarrow> string set \<Rightarrow> panic + (effect list \<times> holder \<times> string set)" where
  "Stop s idx =
     (if \<not> health_chan_closed s then
        (case health_chan s of
           Closed \<Rightarrow> Inl CloseOfClosedChannel
         | Open \<Rightarrow>
             Inr ([CloseStream Writer, CloseStream Reader, CloseStream ErrReader, CloseChan],
                  s\<lparr>health_chan := Closed, health_chan_closed := True\<rparr>,
                  idx - {id_holder s}))
      else
        Inr ([CloseStream Writer, CloseStream Reader, CloseStream ErrReader],
             s, idx - {id_holder s}))"

text \<open>\<open>Stop_times k\<close> calls \<open>Stop\<close> \<open>k\<close> times in a row and collects the effects.\<close>

fun Stop_times :: "nat \<Rightarrow> holder \<Rightarrow> string set \<Rightarrow> panic + (effect list \<times> holder \<times> string set)" where
  "Stop_times 0 s idx = Inr ([], s, idx)"
| "Stop_times (Suc k) s idx =
     (case Stop s idx of
        Inl p \<Rightarrow> Inl p
      | Inr (tr, s', idx') \<Rightarrow>
          (case Stop_times k s' idx' of
             Inl p \<Rightarrow> Inl p
           | Inr (tr', s'', idx'') \<Rightarrow> Inr (tr @ tr', s'', idx'')))"

subsection \<open>The stdout demultiplexer\<close>

record PluginUniversalEvent =
  SessionId :: string
  Event :: string
  Data :: string

record PluginLogEvent =
  Message :: string

text \<open>
  Modelled from the spec: the declarations of the four event tags are not among the
  sources; section 6 of the specification gives their wire values.
\<close>

definition PLUGIN_EVENT_LOG :: string where
  "PLUGIN_EVENT_LOG = ''log''"

definition PLUGIN_EVENT_SESSION :: string where
  "PLUGIN_EVENT_SESSION = ''session''"

definition PLUGIN_EVENT_ERROR :: string where
  "PLUGIN_EVENT_ERROR = ''error''"

definition PLUGIN_EVENT_HEARTBEAT :: string where
  "PLUGIN_EVENT_HEARTBEAT = ''heartbeat''"

text \<open>
  \<open>parser.UnmarshalJsonBytes\<close> is not among the sources either: the two instances
  used here are parameters, \<open>Inl\<close> carrying the text of the error.
\<close>

type_synonym unmarshal_event = "string \<Rightarrow> string + PluginUniversalEvent"
type_synonym unmarshal_log = "string \<Rightarrow> string + PluginLogEvent"

text \<open>
  A Go map has no order of its own: a \<open>range\<close> over it visits every key once, in an
  order the runtime chooses afresh each time. The order chosen is an input of the loop;
  \<open>range_order m ks\<close> says that \<open>ks\<close> is an order a \<open>range\<close> over \<open>m\<close> can take.
\<close>

definition range_order :: "(string \<rightharpoonup> callback) \<Rightarrow> string list \<Rightarrow> bool" where
  "range_order m ks = (distinct ks \<and> set ks = dom m)"

fun range_listeners :: "(string \<rightharpoonup> callback) \<Rightarrow> string list \<Rightarrow> string \<Rightarrow> string \<Rightarrow> effect list" where
  "range_listeners m [] hid d = []"
| "range_listeners m (k # ks) hid d =
     (case m k of
        None \<Rightarrow> range_listeners m ks hid d
      | Some f \<Rightarrow> CallBroadcast f hid d # range_listeners m ks hid d)"

fun range_listener :: "(string \<rightharpoonup> callback) \<Rightarrow> string list \<Rightarrow> string \<Rightarrow> string \<Rightarrow> effect list" where
  "range_listener m [] session_id d = []"
| "range_listener m (k # ks) session_id d =
     (case m k of
        None \<Rightarrow> range_listener m ks session_id d
      | Some f \<Rightarrow>
          (if k = session_id then CallSession f d # range_listener m ks session_id d
           else range_listener m ks session_id d))"

text \<open>
  What one turn of the scanner loop reads from outside: the line, the clock, and the
  orders the two \<open>range\<close> statements take.
\<close>

record scanned =
  line_bytes :: string
  line_now :: int
  order_listeners :: "string list"
  order_listener :: "string list"

definition scan_step ::
  "unmarshal_event \<Rightarrow> unmarshal_log \<Rightarrow> globals \<Rightarrow> scanned \<Rightarrow> holder \<Rightarrow> effect list \<times> holder" where
  "scan_step unmarshal_ev unmarshal_lg g inp s =
     (if length (line_bytes inp) = 0 then ([], s)
      else
        (case unmarshal_ev (line_bytes inp) of
           Inl err \<Rightarrow> ([], s)
         | Inr event \<Rightarrow>
             (if Event event = PLUGIN_EVENT_LOG then
                (if Event event = PLUGIN_EVENT_LOG then
                   (case unmarshal_lg (Data event) of
                      Inl err \<Rightarrow> ([LogError (''unmarshal json failed: '' @ err)], s)
                    | Inr logEvent \<Rightarrow>
                        ([LogInfo (''plugin '' @ plugin_identity s @ '': '' @ Message logEvent)], s))
                 else ([], s))
              else if Event event = PLUGIN_EVENT_SESSION then
                (range_listeners (listeners g) (order_listeners inp) (id_holder s) (Data event)
                   @ range_listener (listener s) (order_listener inp) (SessionId event) (Data event),
                 s)
              else if Event event = PLUGIN_EVENT_ERROR then
                ([LogError (''plugin '' @ plugin_identity s @ '': '' @ Data event)], s)
              else if Event event = PLUGIN_EVENT_HEARTBEAT then
                ([], s\<lparr>last_active_at := line_now inp\<rparr>)
              else ([], s))))"

fun scan_loop ::
  "unmarshal_event \<Rightarrow> unmarshal_log \<Rightarrow> globals \<Rightarrow> scanned list \<Rightarrow> holder \<Rightarrow> effect list \<times> holder" where
  "scan_loop unmarshal_ev unmarshal_lg g [] s = ([], s)"
| "scan_loop unmarshal_ev unmarshal_lg g (inp # inps) s =
     (case scan_step unmarshal_ev unmarshal_lg g inp s of
        (tr, s') \<Rightarrow>
          (case scan_loop unmarshal_ev unmarshal_lg g inps s' of
             (tr', s'') \<Rightarrow> (tr @ tr', s'')))"

text \<open>
  \<open>StartStdout\<close> on a stdout that yields the lines \<open>inps\<close> and then ends (or fails):
  the deferred \<open>Stop\<close> runs when the scanner gives up.
\<close>

definition StartStdout ::
  "unmarshal_event \<Rightarrow> unmarshal_log \<Rightarrow> globals \<Rightarrow> scanned list \<Rightarrow> holder
     \<Rightarrow> panic + (effect list \<times> holder \<times> globals)" where
  "StartStdout unmarshal_ev unmarshal_lg g inps s =
     (case scan_loop unmarshal_ev unmarshal_lg g inps (s\<lparr>started := True\<rparr>) of
        (tr, s') \<Rightarrow>
          (case Stop s' (stdio_holder g) of
             Inl p \<Rightarrow> Inl p
           | Inr (tr', s'', idx) \<Rightarrow> Inr (tr @ tr', s'', g\<lparr>stdio_holder := idx\<rparr>)))"

definition is_heartbeat :: "unmarshal_event \<Rightarrow> scanned \<Rightarrow> bool" where
  "is_heartbeat unmarshal_ev inp =
     (line_bytes inp \<noteq> [] \<and>
      (case unmarshal_ev (line_bytes inp) of
         Inl err \<Rightarrow> False
       | Inr event \<Rightarrow> Event event = PLUGIN_EVENT_HEARTBEAT))"

subsection \<open>The liveness waiter\<close>

datatype select_case = TickerC | HealthChan

text \<open>
  What one turn of the loop of \<open>Wait\<close> observes: the flag \<open>health_chan_closed\<close> as read
  at the top of the loop, the case of the \<open>select\<close> that fired, the clock when its body
  runs, and the holder as the body reads it (other goroutines write \<open>last_active_at\<close>
  and the error ring in the meantime).
\<close>

record observed =
  closed_at_top :: bool
  fired :: select_case
  at_time :: int
  seen :: holder

datatype waited = Returned "string option" | Waiting

text \<open>
  \<open>Returned e\<close>: \<open>Wait\<close> returned \<open>e\<close> (\<open>None\<close> for \<open>nil\<close>). \<open>Waiting\<close>: every listed
  observation was consumed and \<open>Wait\<close> is blocked in the next \<open>select\<close>.
\<close>

fun Wait_loop :: "observed list \<Rightarrow> waited" where
  "Wait_loop [] = Waiting"
| "Wait_loop (ob # obs) =
     (if closed_at_top ob then Returned None
      else
        (case fired ob of
           TickerC \<Rightarrow>
             (if at_time ob - last_active_at (seen ob) > 20 * Second
              then Returned (Some ''plugin is not active'')
              else Wait_loop obs)
         | HealthChan \<Rightarrow> Returned (Error (at_time ob) (seen ob))))"

definition Wait :: "holder \<Rightarrow> observed list \<Rightarrow> waited" where
  "Wait s obs =
     (if health_chan_closed s
      then Returned (Some ''you need to start the health check before waiting'')
      else Wait_loop obs)"

text \<open>
  The observations of a waiter that starts at \<open>t0\<close>, whose ticker fires every five
  seconds exactly, while the termination signal stays open and the holder stays as
  \<open>s\<close>: ticks number \<open>1\<close> to \<open>n\<close>.
\<close>

definition tick :: "holder \<Rightarrow> int \<Rightarrow> nat \<Rightarrow> observed" where
  "tick s t0 k =
     \<lparr>closed_at_top = False, fired = TickerC,
      at_time = t0 + 5 * Second * int k, seen = s\<rparr>"

definition ticks :: "holder \<Rightarrow> int \<Rightarrow> nat \<Rightarrow> observed list" where
  "ticks s t0 n = map (tick s t0) [1..<Suc n]"

definition live_tick :: "observed \<Rightarrow> bool" where
  "live_tick ob =
     (\<not> closed_at_top ob \<and> fired ob = TickerC
      \<and> at_time ob - last_active_at (seen ob) \<le> 20 * Second)"

subsection \<open>Sample inputs\<close>

text \<open>
  A decoder for four one-letter lines, standing in for the JSON decoder where a
  concrete run is evaluated, and two small listener maps. In \<open>two_listeners\<close> the
  listener \<open>1\<close> is registered under \<open>a\<close> first, the listener \<open>2\<close> under \<open>b\<close> after it.
\<close>

definition sample_event :: "string \<Rightarrow> string \<Rightarrow> string \<Rightarrow> PluginUniversalEvent" where
  "sample_event sid ev d = \<lparr>SessionId = sid, Event = ev, Data = d\<rparr>"

definition sample_unmarshal_event :: unmarshal_event where
  "sample_unmarshal_event b =
     (if b = ''H'' then Inr (sample_event [] ''heartbeat'' [])
      else if b = ''S'' then Inr (sample_event ''a'' ''session'' ''{}'')
      else if b = ''L'' then Inr (sample_event [] ''log'' ''!'')
      else if b = ''U'' then Inr (sample_event [] ''metrics'' [])
      else Inl ''invalid character'')"

definition sample_unmarshal_log :: unmarshal_log where
  "sample_unmarshal_log b =
     (if b = ''ok'' then Inr \<lparr>Message = ''hello''\<rparr> else Inl ''invalid character'')"

definition two_listeners :: "string \<rightharpoonup> callback" where
  "two_listeners = [''a'' \<mapsto> 1, ''b'' \<mapsto> 2]"

definition sample_globals :: globals where
  "sample_globals = \<lparr>stdio_holder = {''h1''}, listeners = two_listeners\<rparr>"

definition session_listeners :: "string \<rightharpoonup> callback" where
  "session_listeners = [''a'' \<mapsto> 7, ''c'' \<mapsto> 8]"

definition sample_holder :: holder where
  "sample_holder = fresh_holder\<lparr>listener := session_listeners\<rparr>"

definition sample_line :: "string \<Rightarrow> int \<Rightarrow> string list \<Rightarrow> scanned" where
  "sample_line b t ks =
     \<lparr>line_bytes = b, line_now = t, order_listeners = ks, order_listener = [''c'', ''a'']\<rparr>"

definition sample_read :: "string \<Rightarrow> read_error option \<Rightarrow> int \<Rightarrow> read_result" where
  "sample_read b e t = \<lparr>got = b, rerr = e, at = t\<rparr>"

definition ring_holder :: holder where
  "ring_holder = fresh_holder\<lparr>err_message := replicate 1023 (CHR ''x'')\<rparr>"

definition boom_holder :: holder where
  "boom_holder =
     fresh_holder\<lparr>err_message := ''boom'', last_err_message_updated_at := Second,
                    health_chan := Closed, health_chan_closed := True\<rparr>"

definition sample_observed :: "bool \<Rightarrow> select_case \<Rightarrow> int \<Rightarrow> holder \<Rightarrow> observed" where
  "sample_observed c f t s = \<lparr>closed_at_top = c, fired = f, at_time = t, seen = s\<rparr>"

section \<open>Properties\<close>

subsection \<open>The error ring\<close>

lemma WriteError_Inr_iff:
  "(\<exists>s'. WriteError now msg s = Inr s') \<longleftrightarrow> length msg \<le> 1024"
  by (auto simp: WriteError_def reduce_def MAX_ERR_MSG_LEN_def)

lemma nat_reduce:
  "0 < reduce msg s \<Longrightarrow> nat (reduce msg s) = length (err_message s @ msg) - 1024"
  unfolding reduce_def MAX_ERR_MSG_LEN_def by simp

text \<open>
  A message of at most 1024 code units is appended, and the ring keeps the last 1024
  code units of what it held followed by the message.
\<close>

lemma WriteError_ring:
  assumes "length msg \<le> 1024"
  shows "WriteError now msg s =
           Inr (s\<lparr>err_message := drop (length (err_message s @ msg) - 1024) (err_message s @ msg),
                  last_err_message_updated_at := now\<rparr>)"
proof (cases "0 < reduce msg s")
  case True
  have le: "length (err_message s @ msg) - 1024 \<le> length (err_message s)"
    using assms by simp
  have "\<not> reduce msg s > int (length (err_message s))"
    using assms by (simp add: reduce_def MAX_ERR_MSG_LEN_def)
  then show ?thesis
    using True le by (simp add: WriteError_def nat_reduce del: length_append)
next
  case False
  then have "length (err_message s @ msg) - 1024 = 0"
    by (simp add: reduce_def MAX_ERR_MSG_LEN_def)
  then show ?thesis
    using False by (simp add: WriteError_def del: length_append)
qed

lemma WriteError_ring_length:
  "WriteError now msg s = Inr s' \<Longrightarrow> length (err_message s) \<le> 1024 \<Longrightarrow> length (err_message s') \<le> 1024"
  by (auto simp: WriteError_def reduce_def MAX_ERR_MSG_LEN_def split: if_splits)

lemma last_n_append:
  "last_n n (last_n n xs @ ys) = last_n n (xs @ ys)"
proof (cases "length xs \<le> n")
  case True
  then show ?thesis by (simp add: last_n_def)
next
  case False
  let ?a = "length xs - n"
  have l: "length (drop ?a xs @ ys) - n = length ys"
    using False by simp
  have r: "length (xs @ ys) - n = length ys + ?a"
    using False by simp
  have "drop (length ys) (drop ?a xs @ ys) = drop (length ys) (drop ?a (xs @ ys))"
    by simp
  also have "\<dots> = drop (length ys + ?a) (xs @ ys)"
    by (rule drop_drop)
  finally show ?thesis
    unfolding last_n_def l r .
qed

text \<open>
  The rolling window: as long as no single message is longer than 1024 code units, the
  ring after any number of appends is the last 1024 code units of everything appended.
\<close>

lemma WriteErrors_window:
  assumes "\<forall>m \<in> set ms. length (snd m) \<le> 1024"
  shows "\<exists>s'. WriteErrors ms s = Inr s' \<and>
           last_n 1024 (err_message s') = last_n 1024 (err_message s @ concat (map snd ms))
           \<and> (ms \<noteq> [] \<longrightarrow> err_message s' = last_n 1024 (err_message s @ concat (map snd ms)))"
  using assms
proof (induction ms arbitrary: s)
  case Nil
  show ?case by simp
next
  case (Cons tm ms)
  obtain t m where tm: "tm = (t, m)" by (cases tm)
  have len: "length m \<le> 1024" using Cons.prems tm by simp
  let ?s1 = "s\<lparr>err_message := last_n 1024 (err_message s @ m),
                last_err_message_updated_at := t\<rparr>"
  have w: "WriteError t m s = Inr ?s1"
    using WriteError_ring [OF len] by (simp add: last_n_def)
  from Cons.IH [of ?s1] Cons.prems obtain s' where
    s': "WriteErrors ms ?s1 = Inr s'"
    and e: "last_n 1024 (err_message s') = last_n 1024 (err_message ?s1 @ concat (map snd ms))"
    and e': "ms \<noteq> [] \<longrightarrow> err_message s' = last_n 1024 (err_message ?s1 @ concat (map snd ms))"
    by auto
  have r: "WriteErrors (tm # ms) s = Inr s'" using w s' tm by simp
  have c: "last_n 1024 (err_message ?s1 @ concat (map snd ms))
             = last_n 1024 (err_message s @ concat (map snd (tm # ms)))"
    using last_n_append [of 1024 "err_message s @ m" "concat (map snd ms)"] tm by simp
  have "err_message s' = last_n 1024 (err_message s @ concat (map snd (tm # ms)))"
  proof (cases "ms = []")
    case True
    with s' have "s' = ?s1" by simp
    then show ?thesis using True tm by simp
  next
    case False
    then show ?thesis using e' c by simp
  qed
  then show ?case using r e c by simp
qed

text \<open>
  C1. The claim: for every ring and every message, \<open>WriteError\<close> drops the overflow and
  concatenates, so that the ring never exceeds 1024 code units and holds the last
  \<open>min L 1024\<close> code units appended. At a message longer than 1024 code units the code
  does not do so: with the ring \<open>abc\<close> and a message of 1025 code units, as
  \<open>StartStderr\<close> builds from a full buffer and its newline, \<open>reduce\<close> is 4, beyond the
  3 code units of the ring, and the slice expression panics.
\<close>

theorem WriteError_overlong_panics:
  "WriteError 7 (replicate 1025 (CHR ''x'')) (fresh_holder\<lparr>err_message := ''abc''\<rparr>)
     = Inl (SliceBoundsOutOfRange 4 3)
   \<and> StartStderr [sample_read (replicate 1024 (CHR ''x'')) None 7]
         (fresh_holder\<lparr>err_message := ''abc''\<rparr>)
     = Inl (SliceBoundsOutOfRange 4 3)"
  by (simp add: WriteError_def reduce_def MAX_ERR_MSG_LEN_def fresh_holder_def sample_read_def)

text \<open>
  C10, as amended. Whenever \<open>WriteError\<close> takes the slice (\<open>reduce > 0\<close>), the lower
  bound is in range, \<open>0 \<le> reduce \<le> len(err_message)\<close>, if and only if the message
  has at most 1024 code units; hence the call returns without a panic if and only if
  the message has at most 1024 code units; and a read that fills the 1024-byte buffer,
  with no error or at the end of the stream, makes \<open>StartStderr\<close> build a message of
  1025 code units, on which \<open>WriteError\<close> panics.
\<close>

theorem WriteError_slice_bound:
  "(0 < reduce msg s \<longrightarrow>
      (0 \<le> reduce msg s \<and> reduce msg s \<le> int (length (err_message s))
         \<longleftrightarrow> length msg \<le> 1024))
   \<and> ((\<exists>s'. WriteError now msg s = Inr s') \<longleftrightarrow> length msg \<le> 1024)
   \<and> (length (got r) = 1024 \<and> rerr r \<in> {None, Some EOF} \<longrightarrow>
        StartStderr (r # rs) s = Inl (SliceBoundsOutOfRange (int (length (err_message s)) + 1) (int (length (err_message s)))))"
  by (auto simp: WriteError_def reduce_def MAX_ERR_MSG_LEN_def)

theorem WriteError_slice_bound_witness:
  "0 < reduce ''abc'' ring_holder
   \<and> reduce ''abc'' ring_holder \<le> int (length (err_message ring_holder))
   \<and> (\<exists>s'. WriteError 9 ''abc'' ring_holder = Inr s')
   \<and> StartStderr [sample_read (replicate 1024 (CHR ''y'')) None 9] ring_holder
       = Inl (SliceBoundsOutOfRange 1024 1023)"
  using WriteError_slice_bound [where msg = "''abc''" and s = ring_holder and now = 9
      and r = "sample_read (replicate 1024 (CHR ''y'')) None 9" and rs = "[]"]
  by (simp add: reduce_def MAX_ERR_MSG_LEN_def ring_holder_def fresh_holder_def sample_read_def)

text \<open>
  C10 as stated fails where the slice is not taken: with an empty ring and an empty
  message \<open>reduce\<close> is \<open>-1024\<close>, so \<open>0 \<le> reduce\<close> is false although the message
  has no more than 1024 code units.
\<close>

theorem reduce_bound_counterexample:
  "\<not> ((0 \<le> reduce [] fresh_holder \<and> reduce [] fresh_holder \<le> int (length (err_message fresh_holder)))
        \<longleftrightarrow> length ([] :: string) \<le> 1024)"
  by (simp add: reduce_def MAX_ERR_MSG_LEN_def fresh_holder_def)

text \<open>
  C7. \<open>Error\<close> returns the ring as an error exactly when the ring is not empty and was
  updated less than 60 seconds ago, and \<open>nil\<close> otherwise. It reads the holder and
  returns nothing but the error, so the holder left by the last \<open>WriteError\<close> (at the
  clock \<open>u\<close>, with a message that is not empty) answers every later call: the ring
  before \<open>u + 60 s\<close>, \<open>nil\<close> from then on.
\<close>

theorem Error_iff:
  "(Error now s = Some m \<longleftrightarrow>
      now - last_err_message_updated_at s < 60 * Second \<and> err_message s \<noteq> [] \<and> m = err_message s)
   \<and> (Error now s = None \<longleftrightarrow>
      \<not> (now - last_err_message_updated_at s < 60 * Second \<and> err_message s \<noteq> []))
   \<and> (WriteError u msg s = Inr s' \<and> msg \<noteq> [] \<longrightarrow>
        (now < u + 60 * Second \<longrightarrow> Error now s' = Some (err_message s') \<and> err_message s' \<noteq> [])
        \<and> (u + 60 * Second \<le> now \<longrightarrow> Error now s' = None))"
  by (auto simp: Error_def WriteError_def split: if_splits)

theorem Error_iff_witness:
  "WriteError 100 ''boom'' fresh_holder
     = Inr (fresh_holder\<lparr>err_message := ''boom'', last_err_message_updated_at := 100\<rparr>)
   \<and> Error (100 + 59 * Second)
        (fresh_holder\<lparr>err_message := ''boom'', last_err_message_updated_at := 100\<rparr>) = Some ''boom''
   \<and> Error (100 + 60 * Second)
        (fresh_holder\<lparr>err_message := ''boom'', last_err_message_updated_at := 100\<rparr>) = None"
  using Error_iff [where now = "100 + 59 * Second" and u = 100 and msg = "''boom''"
      and s = fresh_holder
      and s' = "fresh_holder\<lparr>err_message := ''boom'', last_err_message_updated_at := 100\<rparr>"]
    Error_iff [where now = "100 + 60 * Second" and u = 100 and msg = "''boom''"
      and s = fresh_holder
      and s' = "fresh_holder\<lparr>err_message := ''boom'', last_err_message_updated_at := 100\<rparr>"]
  by (simp add: WriteError_def reduce_def MAX_ERR_MSG_LEN_def fresh_holder_def Second_def)

subsection \<open>The stderr collector\<close>

lemma WriteError_line:
  assumes "length b < 1024"
  shows "WriteError t (b @ [newline]) s =
           Inr (s\<lparr>err_message := last_n 1024 (err_message s @ b @ [newline]),
                  last_err_message_updated_at := t\<rparr>)"
  using assms WriteError_ring [of "b @ [newline]" t s] by (simp add: last_n_def)

text \<open>
  C2, as amended. A read that returns an error other than the end of the stream ends
  the loop and appends nothing, whatever \<open>n\<close> is. A read that returns the end of the
  stream with \<open>n = 0\<close> ends the loop. A read that returns the end of the stream with
  \<open>0 < n < 1024\<close> appends the bytes read followed by a newline (the ring keeps the
  last 1024 code units of what it held and the new text, with the time stamp of the
  append) and ends the loop. A read without error and with \<open>0 < n < 1024\<close> appends in
  the same way and the loop goes on with the next read; one with \<open>n = 0\<close> appends
  nothing and the loop goes on.
\<close>

theorem StartStderr_exits:
  "(rerr r = Some (OtherError e) \<longrightarrow> StartStderr (r # rs) s = Inr (Exited, s))
   \<and> (rerr r = Some EOF \<and> got r = [] \<longrightarrow> (\<exists>s'. StartStderr (r # rs) s = Inr (Exited, s')))
   \<and> (rerr r = Some EOF \<and> 0 < length (got r) \<and> length (got r) < 1024 \<longrightarrow>
        StartStderr (r # rs) s =
          Inr (Exited,
               s\<lparr>err_message := last_n 1024 (err_message s @ got r @ [newline]),
                 last_err_message_updated_at := at r\<rparr>))
   \<and> (rerr r = None \<and> 0 < length (got r) \<and> length (got r) < 1024 \<longrightarrow>
        StartStderr (r # rs) s =
          StartStderr rs
            (s\<lparr>err_message := last_n 1024 (err_message s @ got r @ [newline]),
              last_err_message_updated_at := at r\<rparr>))
   \<and> (rerr r = None \<and> got r = [] \<longrightarrow> StartStderr (r # rs) s = StartStderr rs s)"
proof (intro conjI impI)
  show "StartStderr (r # rs) s = Inr (Exited, s)" if "rerr r = Some (OtherError e)"
    using that by simp
  show "\<exists>s'. StartStderr (r # rs) s = Inr (Exited, s')" if "rerr r = Some EOF \<and> got r = []"
    using that WriteError_line [of "[]" "at r" s] by simp
  show "StartStderr (r # rs) s =
          Inr (Exited,
               s\<lparr>err_message := last_n 1024 (err_message s @ got r @ [newline]),
                 last_err_message_updated_at := at r\<rparr>)"
    if "rerr r = Some EOF \<and> 0 < length (got r) \<and> length (got r) < 1024"
    using that WriteError_line [of "got r" "at r" s] by simp
  show "StartStderr (r # rs) s =
          StartStderr rs
            (s\<lparr>err_message := last_n 1024 (err_message s @ got r @ [newline]),
              last_err_message_updated_at := at r\<rparr>)"
    if "rerr r = None \<and> 0 < length (got r) \<and> length (got r) < 1024"
    using that WriteError_line [of "got r" "at r" s] by simp
  show "StartStderr (r # rs) s = StartStderr rs s" if "rerr r = None \<and> got r = []"
    using that by simp
qed

theorem StartStderr_exits_witness:
  "StartStderr [sample_read ''x'' (Some (OtherError ''io'')) 5, sample_read ''y'' None 6] fresh_holder
     = Inr (Exited, fresh_holder)
   \<and> StartStderr [sample_read [] (Some EOF) 5, sample_read ''y'' None 6] boom_holder
     = Inr (Exited, boom_holder\<lparr>err_message := ''boom'' @ [newline], last_err_message_updated_at := 5\<rparr>)
   \<and> StartStderr [sample_read ''x'' (Some EOF) 5, sample_read ''y'' None 6] fresh_holder
     = Inr (Exited, fresh_holder\<lparr>err_message := ''x'' @ [newline], last_err_message_updated_at := 5\<rparr>)
   \<and> StartStderr [sample_read ''x'' None 5, sample_read [] None 6] fresh_holder
     = Inr (Reading, fresh_holder\<lparr>err_message := ''x'' @ [newline], last_err_message_updated_at := 5\<rparr>)
   \<and> StartStderr [sample_read ''abc'' None 5] ring_holder
     = Inr (Reading, ring_holder\<lparr>err_message := replicate 1020 (CHR ''x'') @ ''abc'' @ [newline],
                                  last_err_message_updated_at := 5\<rparr>)"
  using StartStderr_exits [of "sample_read ''x'' (Some (OtherError ''io'')) 5" "''io''" "[sample_read ''y'' None 6]" fresh_holder]
    StartStderr_exits [of "sample_read [] (Some EOF) 5" "''io''" "[sample_read ''y'' None 6]" boom_holder]
    StartStderr_exits [of "sample_read ''x'' (Some EOF) 5" "''io''" "[sample_read ''y'' None 6]" fresh_holder]
    StartStderr_exits [of "sample_read ''x'' None 5" "''io''" "[sample_read [] None 6]" fresh_holder]
    StartStderr_exits [of "sample_read [] None 6" "''io''" "[]" "fresh_holder\<lparr>err_message := ''x'' @ [newline], last_err_message_updated_at := 5\<rparr>"]
    StartStderr_exits [of "sample_read ''abc'' None 5" "''io''" "[]" ring_holder]
  by (simp add: sample_read_def WriteError_def reduce_def MAX_ERR_MSG_LEN_def fresh_holder_def
      boom_holder_def ring_holder_def last_n_def)

text \<open>
  C2 as stated fails at three reads. The end of the stream with \<open>n = 0\<close> does append:
  the empty ring becomes a single newline, with a new time stamp. An error other than
  the end of the stream with \<open>n = 1\<close> ends the loop and the byte read is not appended.
  And a read without error that fills the buffer, \<open>n = 1024\<close>, neither appends nor
  goes on to the next read: the message of 1025 code units makes \<open>WriteError\<close> panic.
\<close>

theorem StartStderr_exits_counterexample:
  "StartStderr [sample_read [] (Some EOF) 5] fresh_holder
     = Inr (Exited, fresh_holder\<lparr>err_message := [newline], last_err_message_updated_at := 5\<rparr>)
   \<and> err_message fresh_holder = []
   \<and> StartStderr [sample_read ''x'' (Some (OtherError ''io'')) 5] fresh_holder
     = Inr (Exited, fresh_holder)
   \<and> StartStderr [sample_read (replicate 1024 (CHR ''x'')) None 5, sample_read [] (Some EOF) 6]
        fresh_holder
     = Inl (SliceBoundsOutOfRange 1 0)"
  by (simp add: sample_read_def WriteError_def reduce_def MAX_ERR_MSG_LEN_def fresh_holder_def)

subsection \<open>Teardown\<close>

lemma Stop_flagged:
  "health_chan_closed s \<Longrightarrow>
     Stop s idx = Inr ([CloseStream Writer, CloseStream Reader, CloseStream ErrReader], s, idx - {id_holder s})"
  by (simp add: Stop_def)

lemma Stop_times_flagged:
  "health_chan_closed s \<Longrightarrow>
     \<exists>tr. Stop_times k s idx = Inr (tr, s, idx - (if k = 0 then {} else {id_holder s}))
          \<and> count_list tr CloseChan = 0"
proof (induction k arbitrary: idx)
  case 0
  show ?case by simp
next
  case (Suc k)
  from Suc.IH [OF Suc.prems, of "idx - {id_holder s}"] obtain tr where
    "Stop_times k s (idx - {id_holder s})
       = Inr (tr, s, idx - {id_holder s} - (if k = 0 then {} else {id_holder s}))"
    and "count_list tr CloseChan = 0"
    by blast
  moreover have "idx - {id_holder s} - (if k = 0 then {} else {id_holder s}) = idx - {id_holder s}"
    by auto
  ultimately show ?case
    using Suc.prems by (simp add: Stop_flagged)
qed

text \<open>
  C8. \<open>Stop\<close> is idempotent. On a holder whose channel was not closed behind the flag
  (the channel is closed only where the flag is set), \<open>k \<ge> 1\<close> calls in a row all return
  without a panic and leave the holder and the index that one call leaves: the flag set
  and the holder's id out of the index; and in all the calls together \<open>close\<close> is
  executed on the termination signal at most once.
\<close>

theorem Stop_idempotent:
  assumes "health_chan s = Closed \<longrightarrow> health_chan_closed s" and "1 \<le> k"
  shows "\<exists>tr1 trk s' idx'.
           Stop s idx = Inr (tr1, s', idx')
           \<and> Stop_times k s idx = Inr (trk, s', idx')
           \<and> health_chan_closed s' \<and> id_holder s \<notin> idx'
           \<and> count_list trk CloseChan \<le> 1"
proof -
  obtain j where k: "k = Suc j" using assms(2) by (cases k) auto
  show ?thesis
  proof (cases "health_chan_closed s")
    case True
    from Stop_times_flagged [OF True, of k idx] obtain tr where
      "Stop_times k s idx = Inr (tr, s, idx - {id_holder s})" "count_list tr CloseChan = 0"
      using k by auto
    then show ?thesis using True by (simp add: Stop_flagged)
  next
    case False
    then have o: "health_chan s = Open" using assms(1) by (cases "health_chan s") auto
    let ?s' = "s\<lparr>health_chan := Closed, health_chan_closed := True\<rparr>"
    let ?tr = "[CloseStream Writer, CloseStream Reader, CloseStream ErrReader, CloseChan]"
    have 1: "Stop s idx = Inr (?tr, ?s', idx - {id_holder s})"
      using False o by (simp add: Stop_def)
    have f: "health_chan_closed ?s'" by simp
    from Stop_times_flagged [OF f, of j "idx - {id_holder s}"] obtain tr where
      2: "Stop_times j ?s' (idx - {id_holder s})
            = Inr (tr, ?s', idx - {id_holder s} - (if j = 0 then {} else {id_holder ?s'}))"
      and c: "count_list tr CloseChan = 0"
      by blast
    have e: "idx - {id_holder s} - (if j = 0 then {} else {id_holder ?s'}) = idx - {id_holder s}"
      by auto
    have "Stop_times k s idx = Inr (?tr @ tr, ?s', idx - {id_holder s})"
      using 1 2 e k by simp
    then show ?thesis using 1 c by simp
  qed
qed

theorem Stop_idempotent_witness:
  "health_chan fresh_holder = Open \<and> (1::nat) \<le> 3
   \<and> Stop_times 3 fresh_holder {''h1'', ''h2''}
       = Inr ([CloseStream Writer, CloseStream Reader, CloseStream ErrReader, CloseChan,
               CloseStream Writer, CloseStream Reader, CloseStream ErrReader,
               CloseStream Writer, CloseStream Reader, CloseStream ErrReader],
              fresh_holder\<lparr>health_chan := Closed, health_chan_closed := True\<rparr>, {''h2''})
   \<and> Stop fresh_holder {''h1'', ''h2''}
       = Inr ([CloseStream Writer, CloseStream Reader, CloseStream ErrReader, CloseChan],
              fresh_holder\<lparr>health_chan := Closed, health_chan_closed := True\<rparr>, {''h2''})"
  using Stop_idempotent [of fresh_holder 3 "{''h1'', ''h2''}"]
  by (simp add: Stop_def fresh_holder_def eval_nat_numeral)

subsection \<open>The liveness waiter\<close>

text \<open>
  C6. When the termination signal is already closed as \<open>Wait\<close> is called, \<open>Wait\<close>
  returns the error that the health check was not started; the result does not depend
  on any observation, none is consumed, so the polling loop is not entered.
\<close>

theorem Wait_closed_at_call:
  "health_chan_closed s \<Longrightarrow>
     Wait s obs = Returned (Some ''you need to start the health check before waiting'')"
  by (simp add: Wait_def)

theorem Wait_closed_at_call_witness:
  "health_chan_closed (fresh_holder\<lparr>health_chan := Closed, health_chan_closed := True\<rparr>)
   \<and> Wait (fresh_holder\<lparr>health_chan := Closed, health_chan_closed := True\<rparr>) []
       = Returned (Some ''you need to start the health check before waiting'')"
  using Wait_closed_at_call [of "fresh_holder\<lparr>health_chan := Closed, health_chan_closed := True\<rparr>" "[]"]
  by simp

subsection \<open>The stdout demultiplexer\<close>

lemma tags_distinct:
  "PLUGIN_EVENT_SESSION \<noteq> PLUGIN_EVENT_LOG"
  "PLUGIN_EVENT_ERROR \<noteq> PLUGIN_EVENT_LOG"
  "PLUGIN_EVENT_HEARTBEAT \<noteq> PLUGIN_EVENT_LOG"
  "PLUGIN_EVENT_ERROR \<noteq> PLUGIN_EVENT_SESSION"
  "PLUGIN_EVENT_HEARTBEAT \<noteq> PLUGIN_EVENT_SESSION"
  "PLUGIN_EVENT_HEARTBEAT \<noteq> PLUGIN_EVENT_ERROR"
  by (simp_all add: PLUGIN_EVENT_LOG_def PLUGIN_EVENT_SESSION_def PLUGIN_EVENT_ERROR_def
      PLUGIN_EVENT_HEARTBEAT_def)

lemma range_listeners_map:
  "set ks \<subseteq> dom m \<Longrightarrow>
     range_listeners m ks hid d = map (\<lambda>k. CallBroadcast (the (m k)) hid d) ks"
  by (induction ks) auto

lemma range_listener_lookup:
  "distinct ks \<Longrightarrow> set ks \<subseteq> dom m \<Longrightarrow>
     range_listener m ks sid d = (if sid \<in> set ks then [CallSession (the (m sid)) d] else [])"
  by (induction ks) auto

lemma range_listener_order:
  assumes "range_order m ks"
  shows "range_listener m ks sid d = (case m sid of None \<Rightarrow> [] | Some f \<Rightarrow> [CallSession f d])"
proof -
  have "distinct ks" "set ks \<subseteq> dom m" "set ks = dom m"
    using assms by (simp_all add: range_order_def)
  then show ?thesis
    using range_listener_lookup [of ks m sid d] by (auto split: option.splits)
qed

text \<open>
  C3, as amended. For every decoded SESSION event, every broadcast listener registered
  at that moment is invoked exactly once with the holder's id and the data, in the order
  in which the \<open>range\<close> over the map visits the keys (an order the map does not
  determine), all of them before any per-session listener; then exactly the per-session
  listener registered under the envelope's session id is invoked with the data, if there
  is one, and no other per-session listener is invoked. The holder is left as it was.
\<close>

theorem session_dispatch:
  assumes "line_bytes inp \<noteq> []"
    and "unmarshal_ev (line_bytes inp) = Inr ev"
    and "Event ev = PLUGIN_EVENT_SESSION"
    and "range_order (listeners g) (order_listeners inp)"
    and "range_order (listener s) (order_listener inp)"
  shows "scan_step unmarshal_ev unmarshal_lg g inp s =
           (map (\<lambda>k. CallBroadcast (the (listeners g k)) (id_holder s) (Data ev)) (order_listeners inp)
              @ (case listener s (SessionId ev) of
                   None \<Rightarrow> []
                 | Some f \<Rightarrow> [CallSession f (Data ev)]),
            s)"
proof -
  have "set (order_listeners inp) \<subseteq> dom (listeners g)"
    using assms(4) by (simp add: range_order_def)
  then have b: "range_listeners (listeners g) (order_listeners inp) (id_holder s) (Data ev)
      = map (\<lambda>k. CallBroadcast (the (listeners g k)) (id_holder s) (Data ev)) (order_listeners inp)"
    by (rule range_listeners_map)
  note p = range_listener_order [OF assms(5), of "SessionId ev" "Data ev"]
  show ?thesis
    using assms(1-3) by (simp add: scan_step_def tags_distinct b p)
qed

lemma range_order_two: "range_order two_listeners [''b'', ''a'']"
  by (auto simp: range_order_def two_listeners_def)

lemma range_order_two': "range_order two_listeners [''a'', ''b'']"
  by (auto simp: range_order_def two_listeners_def)

lemma range_order_sess: "range_order session_listeners [''c'', ''a'']"
  by (auto simp: range_order_def session_listeners_def)

theorem session_dispatch_witness:
  "range_order two_listeners [''a'', ''b'']
   \<and> range_order session_listeners [''c'', ''a'']
   \<and> scan_step sample_unmarshal_event sample_unmarshal_log sample_globals
        (sample_line ''S'' 3 [''a'', ''b'']) sample_holder
       = ([CallBroadcast 1 ''h1'' ''{}'', CallBroadcast 2 ''h1'' ''{}'', CallSession 7 ''{}''],
          sample_holder)"
  using session_dispatch [where inp = "sample_line ''S'' 3 [''a'', ''b'']"
      and unmarshal_ev = sample_unmarshal_event and unmarshal_lg = sample_unmarshal_log
      and ev = "sample_event ''a'' ''session'' ''{}''" and g = sample_globals and s = sample_holder]
    range_order_two' range_order_sess
  by (simp add: sample_line_def sample_unmarshal_event_def sample_event_def
      PLUGIN_EVENT_SESSION_def sample_globals_def sample_holder_def fresh_holder_def
      two_listeners_def session_listeners_def)

text \<open>
  C3 as stated fails on the order of the broadcast listeners. With the listener \<open>1\<close>
  registered under \<open>a\<close> before the listener \<open>2\<close> under \<open>b\<close>, the \<open>range\<close> may
  visit \<open>b\<close> first, and then the listener registered last is invoked first.
\<close>

theorem session_dispatch_counterexample:
  "range_order two_listeners [''b'', ''a'']
   \<and> scan_step sample_unmarshal_event sample_unmarshal_log sample_globals
        (sample_line ''S'' 3 [''b'', ''a'']) sample_holder
       = ([CallBroadcast 2 ''h1'' ''{}'', CallBroadcast 1 ''h1'' ''{}'', CallSession 7 ''{}''],
          sample_holder)"
  using range_order_two
  by (simp add: scan_step_def sample_line_def sample_unmarshal_event_def sample_event_def
      PLUGIN_EVENT_SESSION_def PLUGIN_EVENT_LOG_def sample_globals_def sample_holder_def
      fresh_holder_def two_listeners_def session_listeners_def)

text \<open>
  C9. An empty line is skipped with no effect. A line that is not empty and fails to
  decode is dropped with no effect: nothing is logged, the holder (its
  \<open>last_active_at\<close> and its error ring) is unchanged. An envelope whose tag is none of
  the four is ignored with no effect. A LOG envelope whose payload fails to decode
  writes one line to the error log and changes nothing else. After any line the loop
  goes on with the lines that follow, from the holder that line left.
\<close>

theorem scan_step_discards:
  "(line_bytes inp = [] \<longrightarrow> scan_step unmarshal_ev unmarshal_lg g inp s = ([], s))
   \<and> (line_bytes inp \<noteq> [] \<and> unmarshal_ev (line_bytes inp) = Inl err \<longrightarrow>
        scan_step unmarshal_ev unmarshal_lg g inp s = ([], s))
   \<and> (line_bytes inp \<noteq> [] \<and> unmarshal_ev (line_bytes inp) = Inr ev
        \<and> Event ev \<noteq> PLUGIN_EVENT_LOG \<and> Event ev \<noteq> PLUGIN_EVENT_SESSION
        \<and> Event ev \<noteq> PLUGIN_EVENT_ERROR \<and> Event ev \<noteq> PLUGIN_EVENT_HEARTBEAT \<longrightarrow>
        scan_step unmarshal_ev unmarshal_lg g inp s = ([], s))
   \<and> (line_bytes inp \<noteq> [] \<and> unmarshal_ev (line_bytes inp) = Inr ev
        \<and> Event ev = PLUGIN_EVENT_LOG \<and> unmarshal_lg (Data ev) = Inl err \<longrightarrow>
        scan_step unmarshal_ev unmarshal_lg g inp s
          = ([LogError (''unmarshal json failed: '' @ err)], s))
   \<and> scan_loop unmarshal_ev unmarshal_lg g (inp # inps) s =
        (fst (scan_step unmarshal_ev unmarshal_lg g inp s)
           @ fst (scan_loop unmarshal_ev unmarshal_lg g inps
                    (snd (scan_step unmarshal_ev unmarshal_lg g inp s))),
         snd (scan_loop unmarshal_ev unmarshal_lg g inps
                (snd (scan_step unmarshal_ev unmarshal_lg g inp s))))"
  by (simp add: scan_step_def split: prod.splits)

theorem scan_step_discards_witness:
  "scan_loop sample_unmarshal_event sample_unmarshal_log sample_globals
     [sample_line [] 1 [''a'', ''b''], sample_line ''not json'' 2 [''a'', ''b''],
      sample_line ''U'' 3 [''a'', ''b''], sample_line ''L'' 4 [''a'', ''b''],
      sample_line ''S'' 5 [''a'', ''b'']] sample_holder
     = ([LogError ''unmarshal json failed: invalid character'',
         CallBroadcast 1 ''h1'' ''{}'', CallBroadcast 2 ''h1'' ''{}'', CallSession 7 ''{}''],
        sample_holder)"
proof -
  let ?l = "scan_loop sample_unmarshal_event sample_unmarshal_log sample_globals"
  let ?st = "scan_step sample_unmarshal_event sample_unmarshal_log sample_globals"
  note d = scan_step_discards [where unmarshal_ev = sample_unmarshal_event
      and unmarshal_lg = sample_unmarshal_log and g = sample_globals and s = sample_holder]
  have 1: "?st (sample_line [] 1 [''a'', ''b'']) sample_holder = ([], sample_holder)"
    using d [where inp = "sample_line [] 1 [''a'', ''b'']"]
    by (simp add: sample_line_def)
  have 2: "?st (sample_line ''not json'' 2 [''a'', ''b'']) sample_holder = ([], sample_holder)"
    using d [where inp = "sample_line ''not json'' 2 [''a'', ''b'']" and err = "''invalid character''"]
    by (simp add: sample_line_def sample_unmarshal_event_def)
  have 3: "?st (sample_line ''U'' 3 [''a'', ''b'']) sample_holder = ([], sample_holder)"
    using d [where inp = "sample_line ''U'' 3 [''a'', ''b'']" and ev = "sample_event [] ''metrics'' []"]
    by (simp add: sample_line_def sample_unmarshal_event_def sample_event_def
        PLUGIN_EVENT_LOG_def PLUGIN_EVENT_SESSION_def PLUGIN_EVENT_ERROR_def
        PLUGIN_EVENT_HEARTBEAT_def)
  have 4: "?st (sample_line ''L'' 4 [''a'', ''b'']) sample_holder
             = ([LogError ''unmarshal json failed: invalid character''], sample_holder)"
    using d [where inp = "sample_line ''L'' 4 [''a'', ''b'']" and ev = "sample_event [] ''log'' ''!''"
        and err = "''invalid character''"]
    by (simp add: sample_line_def sample_unmarshal_event_def sample_event_def
        PLUGIN_EVENT_LOG_def sample_unmarshal_log_def)
  have 5: "?st (sample_line ''S'' 5 [''a'', ''b'']) sample_holder
             = ([CallBroadcast 1 ''h1'' ''{}'', CallBroadcast 2 ''h1'' ''{}'', CallSession 7 ''{}''],
                sample_holder)"
    by (simp add: scan_step_def sample_line_def sample_unmarshal_event_def sample_event_def
      PLUGIN_EVENT_SESSION_def PLUGIN_EVENT_LOG_def sample_globals_def sample_holder_def
      fresh_holder_def two_listeners_def session_listeners_def)
  show ?thesis
    by (simp only: d 1 2 3 4 5 scan_loop.simps(1) fst_conv snd_conv append_Nil append_Nil2 append_Cons)
qed

lemma scan_step_heartbeat:
  "is_heartbeat unmarshal_ev inp \<Longrightarrow>
     scan_step unmarshal_ev unmarshal_lg g inp s = ([], s\<lparr>last_active_at := line_now inp\<rparr>)"
  by (auto simp: is_heartbeat_def scan_step_def tags_distinct split: sum.splits)

lemma scan_step_other:
  "\<not> is_heartbeat unmarshal_ev inp \<Longrightarrow>
     snd (scan_step unmarshal_ev unmarshal_lg g inp s) = s"
  by (auto simp: is_heartbeat_def scan_step_def split: sum.splits)

lemma scan_loop_append:
  "scan_loop u l g (xs @ ys) s =
     (fst (scan_loop u l g xs s) @ fst (scan_loop u l g ys (snd (scan_loop u l g xs s))),
      snd (scan_loop u l g ys (snd (scan_loop u l g xs s))))"
  by (induction xs arbitrary: s) (auto split: prod.splits)

lemma scan_step_last_active:
  "last_active_at (snd (scan_step u l g inp s)) =
     (if is_heartbeat u inp then line_now inp else last_active_at s)"
  by (simp add: scan_step_heartbeat scan_step_other)

lemma scan_loop_last_active_cases:
  "last_active_at (snd (scan_loop u l g inps s)) = last_active_at s
   \<or> last_active_at (snd (scan_loop u l g inps s)) \<in> line_now ` set inps"
proof (induction inps arbitrary: s)
  case Nil
  show ?case by simp
next
  case (Cons inp inps)
  let ?s1 = "snd (scan_step u l g inp s)"
  have e: "snd (scan_loop u l g (inp # inps) s) = snd (scan_loop u l g inps ?s1)"
    by (simp split: prod.splits)
  show ?case
    using Cons.IH [of ?s1] scan_step_last_active [of u l g inp s]
    unfolding e by (auto split: if_splits)
qed

lemma scan_loop_mono:
  assumes "sorted (map line_now inps)" and "\<forall>inp \<in> set inps. last_active_at s \<le> line_now inp"
  shows "last_active_at s \<le> last_active_at (snd (scan_loop u l g inps s))"
  using assms
proof (induction inps arbitrary: s)
  case Nil
  show ?case by simp
next
  case (Cons inp inps)
  let ?s1 = "snd (scan_step u l g inp s)"
  have e: "snd (scan_loop u l g (inp # inps) s) = snd (scan_loop u l g inps ?s1)"
    by (simp split: prod.splits)
  have s1: "last_active_at s \<le> last_active_at ?s1"
    using Cons.prems(2) by (simp add: scan_step_last_active)
  have "\<forall>x \<in> set inps. last_active_at ?s1 \<le> line_now x"
    using Cons.prems by (auto simp: scan_step_last_active)
  moreover have "sorted (map line_now inps)" using Cons.prems(1) by simp
  ultimately have "last_active_at ?s1 \<le> last_active_at (snd (scan_loop u l g inps ?s1))"
    by (rule Cons.IH [rotated])
  then show ?case unfolding e using s1 by linarith
qed

lemma WriteError_last_active:
  "WriteError t m s = Inr s' \<Longrightarrow> last_active_at s' = last_active_at s"
  by (auto simp: WriteError_def split: if_splits)

lemma Stop_last_active:
  "Stop s idx = Inr (tr, s', idx') \<Longrightarrow> last_active_at s' = last_active_at s"
  by (auto simp: Stop_def split: if_splits chan.splits)

lemma StartStderr_last_active:
  "StartStderr rs s = Inr (c, s') \<Longrightarrow> last_active_at s' = last_active_at s"
proof (induction rs arbitrary: s)
  case Nil
  then show ?case by simp
next
  case (Cons r rs)
  then show ?case
    by (auto split: if_splits sum.splits dest: WriteError_last_active)
qed

lemma scan_loop_holder:
  "\<exists>t. snd (scan_loop u l g inps s) = s\<lparr>last_active_at := t\<rparr>"
proof (induction inps arbitrary: s)
  case Nil
  have "s = s\<lparr>last_active_at := last_active_at s\<rparr>" by simp
  then show ?case by (metis scan_loop.simps(1) snd_conv)
next
  case (Cons inp inps)
  let ?s1 = "snd (scan_step u l g inp s)"
  have e: "snd (scan_loop u l g (inp # inps) s) = snd (scan_loop u l g inps ?s1)"
    by (simp split: prod.splits)
  have "?s1 = s\<lparr>last_active_at := last_active_at ?s1\<rparr>"
    by (cases "is_heartbeat u inp") (simp_all add: scan_step_heartbeat scan_step_other)
  moreover obtain t where "snd (scan_loop u l g inps ?s1) = ?s1\<lparr>last_active_at := t\<rparr>"
    using Cons.IH by blast
  ultimately have "snd (scan_loop u l g (inp # inps) s) = s\<lparr>last_active_at := t\<rparr>"
    unfolding e by (metis holder.update_convs(10) holder.surjective holder.simps(20))
  then show ?case by blast
qed

text \<open>
  The whole run of \<open>StartStdout\<close>: it sets the \<open>started\<close> latch, and when the scanner
  gives up the deferred \<open>Stop\<close> closes the termination signal and takes the holder out
  of the index; \<open>last_active_at\<close> is what the scanner loop left.
\<close>

lemma StartStdout_runs:
  assumes "health_chan s = Closed \<longrightarrow> health_chan_closed s"
  shows "\<exists>tr s'. StartStdout u l g inps s
             = Inr (tr, s', g\<lparr>stdio_holder := stdio_holder g - {id_holder s}\<rparr>)
           \<and> started s' \<and> health_chan_closed s'
           \<and> last_active_at s' = last_active_at (snd (scan_loop u l g inps (s\<lparr>started := True\<rparr>)))"
proof -
  obtain t where t: "snd (scan_loop u l g inps (s\<lparr>started := True\<rparr>))
      = s\<lparr>started := True, last_active_at := t\<rparr>"
    using scan_loop_holder [of u l g inps "s\<lparr>started := True\<rparr>"] by auto
  obtain tr where p: "scan_loop u l g inps (s\<lparr>started := True\<rparr>)
      = (tr, s\<lparr>started := True, last_active_at := t\<rparr>)"
    using t by (cases "scan_loop u l g inps (s\<lparr>started := True\<rparr>)") simp
  show ?thesis
    using assms by (cases "health_chan s") (auto simp: StartStdout_def p Stop_def)
qed

text \<open>
  C4. A HEARTBEAT line sets \<open>last_active_at\<close> to the clock and has no other effect;
  every other line (LOG, SESSION, ERROR, an unknown tag, an empty or an undecodable line)
  leaves \<open>last_active_at\<close> as it was. So, with a clock that does not run backwards and
  is not behind the initial \<open>last_active_at\<close>, the field never decreases along the run
  of the demultiplexer: it is at least its initial value after any prefix of the lines,
  and at least that after any longer prefix. Outside the demultiplexer it does not move:
  \<open>WriteError\<close>, \<open>StartStderr\<close> and \<open>Stop\<close> leave it unchanged, and \<open>Error\<close> and
  \<open>Wait\<close> return no holder.
\<close>

theorem last_active_at_heartbeat_only:
  "(is_heartbeat unmarshal_ev inp \<longrightarrow>
      scan_step unmarshal_ev unmarshal_lg g inp s = ([], s\<lparr>last_active_at := line_now inp\<rparr>))
   \<and> (\<not> is_heartbeat unmarshal_ev inp \<longrightarrow>
      last_active_at (snd (scan_step unmarshal_ev unmarshal_lg g inp s)) = last_active_at s)
   \<and> (sorted (map line_now (pre @ post))
        \<and> (\<forall>x \<in> set (pre @ post). last_active_at s \<le> line_now x) \<longrightarrow>
      last_active_at s \<le> last_active_at (snd (scan_loop unmarshal_ev unmarshal_lg g pre s))
      \<and> last_active_at (snd (scan_loop unmarshal_ev unmarshal_lg g pre s))
           \<le> last_active_at (snd (scan_loop unmarshal_ev unmarshal_lg g (pre @ post) s)))
   \<and> (WriteError t m s = Inr s1 \<longrightarrow> last_active_at s1 = last_active_at s)
   \<and> (StartStderr rs s = Inr (c, s2) \<longrightarrow> last_active_at s2 = last_active_at s)
   \<and> (Stop s idx = Inr (tr, s3, idx') \<longrightarrow> last_active_at s3 = last_active_at s)"
proof -
  let ?sp = "snd (scan_loop unmarshal_ev unmarshal_lg g pre s)"
  have mono: "last_active_at s \<le> last_active_at ?sp
      \<and> last_active_at ?sp
           \<le> last_active_at (snd (scan_loop unmarshal_ev unmarshal_lg g (pre @ post) s))"
    if srt: "sorted (map line_now (pre @ post))"
      and lo: "\<forall>x \<in> set (pre @ post). last_active_at s \<le> line_now x"
  proof -
    have a: "last_active_at s \<le> last_active_at ?sp"
      using srt lo by (intro scan_loop_mono) (auto simp: sorted_append)
    have "\<forall>x \<in> set post. last_active_at ?sp \<le> line_now x"
      using scan_loop_last_active_cases [of unmarshal_ev unmarshal_lg g pre s] srt lo
      by (auto simp: sorted_append)
    moreover have "sorted (map line_now post)" using srt by (simp add: sorted_append)
    ultimately have "last_active_at ?sp
        \<le> last_active_at (snd (scan_loop unmarshal_ev unmarshal_lg g post ?sp))"
      by (intro scan_loop_mono)
    then show ?thesis using a by (simp add: scan_loop_append)
  qed
  show ?thesis
    using mono
    by (simp add: scan_step_heartbeat scan_step_last_active WriteError_last_active
        StartStderr_last_active Stop_last_active)
qed

theorem last_active_at_heartbeat_only_witness:
  "is_heartbeat sample_unmarshal_event (sample_line ''H'' 10 [''a'', ''b''])
   \<and> scan_step sample_unmarshal_event sample_unmarshal_log sample_globals
        (sample_line ''H'' 10 [''a'', ''b'']) sample_holder
       = ([], sample_holder\<lparr>last_active_at := 10\<rparr>)
   \<and> \<not> is_heartbeat sample_unmarshal_event (sample_line ''S'' 12 [''a'', ''b''])
   \<and> last_active_at (snd (scan_loop sample_unmarshal_event sample_unmarshal_log sample_globals
        [sample_line ''H'' 10 [''a'', ''b''], sample_line ''S'' 12 [''a'', ''b'']] sample_holder)) = 10
   \<and> last_active_at (snd (scan_loop sample_unmarshal_event sample_unmarshal_log sample_globals
        ([sample_line ''H'' 10 [''a'', ''b''], sample_line ''S'' 12 [''a'', ''b'']]
           @ [sample_line ''H'' 15 [''a'', ''b'']]) sample_holder)) = 15
   \<and> last_active_at sample_holder = 0"
  using last_active_at_heartbeat_only [where unmarshal_ev = sample_unmarshal_event
      and unmarshal_lg = sample_unmarshal_log and g = sample_globals and s = sample_holder
      and inp = "sample_line ''H'' 10 [''a'', ''b'']"
      and pre = "[sample_line ''H'' 10 [''a'', ''b''], sample_line ''S'' 12 [''a'', ''b'']]"
      and post = "[sample_line ''H'' 15 [''a'', ''b'']]"]
  by (simp add: is_heartbeat_def scan_step_def sample_line_def sample_unmarshal_event_def
      sample_event_def PLUGIN_EVENT_HEARTBEAT_def PLUGIN_EVENT_SESSION_def PLUGIN_EVENT_LOG_def
      PLUGIN_EVENT_ERROR_def sample_holder_def fresh_holder_def)

subsection \<open>The liveness waiter: polling\<close>

lemma Wait_loop_live:
  "\<forall>ob \<in> set pre. live_tick ob \<Longrightarrow> Wait_loop (pre @ rest) = Wait_loop rest"
  by (induction pre) (auto simp: live_tick_def)

lemma ticks_split:
  assumes "1 \<le> k" and "k \<le> n"
  shows "ticks s t0 n = ticks s t0 (k - 1) @ tick s t0 k # map (tick s t0) [Suc k..<Suc n]"
proof -
  have "[1..<Suc n] = [1..<k] @ [k..<Suc n]"
    using assms upt_add_eq_append [of 1 k "Suc n - k"] by simp
  also have "[k..<Suc n] = k # [Suc k..<Suc n]"
    using assms by (simp add: upt_conv_Cons)
  finally show ?thesis using assms by (simp add: ticks_def)
qed

lemma ticks_live:
  assumes "\<forall>j. 1 \<le> j \<and> j \<le> m \<longrightarrow> t0 + 5 * Second * int j - last_active_at s \<le> 20 * Second"
  shows "\<forall>ob \<in> set (ticks s t0 m). live_tick ob"
  using assms by (auto simp: ticks_def tick_def live_tick_def)

lemma ticks_unfold:
  "ticks s t0 0 = []"
  "ticks s t0 (Suc n) = ticks s t0 n @ [tick s t0 (Suc n)]"
  by (simp_all add: ticks_def)

text \<open>
  C5, as amended. While the flag is open at the top of the loop and every tick so far
  found the plugin active, \<open>Wait\<close> keeps waiting; at the first tick that observes
  \<open>now - last_active_at > 20 s\<close> it returns the error \<open>plugin is not active\<close>; and
  when the \<open>select\<close> receives from the closed termination signal it returns what
  \<open>Error\<close> reports at that moment (possibly no error). Consequently, when the waiter
  was called no later than 20 s after the last heartbeat, its ticker fires every 5 s, no
  event arrives after that heartbeat and the termination signal never fires, \<open>Wait\<close>
  returns \<open>plugin is not active\<close> at a tick that lies more than 20 s and at most 25 s
  after the heartbeat, and is still waiting at the tick before.
\<close>

theorem Wait_polls:
  "(\<not> health_chan_closed s \<and> (\<forall>x \<in> set pre. live_tick x) \<and> \<not> closed_at_top ob \<longrightarrow>
      Wait s pre = Waiting
      \<and> (fired ob = TickerC \<and> at_time ob - last_active_at (seen ob) > 20 * Second \<longrightarrow>
           Wait s (pre @ ob # rest) = Returned (Some ''plugin is not active''))
      \<and> (fired ob = HealthChan \<longrightarrow>
           Wait s (pre @ ob # rest) = Returned (Error (at_time ob) (seen ob))))
   \<and> (\<not> health_chan_closed s \<and> called \<le> last_active_at s + 20 * Second
        \<and> last_active_at s + 20 * Second < called + 5 * Second * int n \<longrightarrow>
      (\<exists>k. 1 \<le> k \<and> k \<le> n
         \<and> Wait s (ticks s called (k - 1)) = Waiting
         \<and> Wait s (ticks s called k) = Returned (Some ''plugin is not active'')
         \<and> Wait s (ticks s called n) = Returned (Some ''plugin is not active'')
         \<and> last_active_at s + 20 * Second < called + 5 * Second * int k
         \<and> called + 5 * Second * int k \<le> last_active_at s + 25 * Second))"
proof (intro conjI impI)
  assume a: "\<not> health_chan_closed s \<and> (\<forall>x \<in> set pre. live_tick x) \<and> \<not> closed_at_top ob"
  then have l: "\<And>rest. Wait_loop (pre @ rest) = Wait_loop rest"
    using Wait_loop_live by blast
  show "Wait s pre = Waiting"
    using a l [of "[]"] by (simp add: Wait_def)
  show "Wait s (pre @ ob # rest) = Returned (Some ''plugin is not active'')"
    if "fired ob = TickerC \<and> at_time ob - last_active_at (seen ob) > 20 * Second"
    using a that by (simp add: Wait_def l)
  show "Wait s (pre @ ob # rest) = Returned (Error (at_time ob) (seen ob))"
    if "fired ob = HealthChan"
    using a that by (simp add: Wait_def l)
next
  assume b: "\<not> health_chan_closed s \<and> called \<le> last_active_at s + 20 * Second
        \<and> last_active_at s + 20 * Second < called + 5 * Second * int n"
  define x where "x = last_active_at s + 20 * Second - called"
  define q where "q = nat (x div (5 * Second))"
  define k where "k = Suc q"
  have S: "0 < 5 * Second" by (simp add: Second_def)
  have x0: "0 \<le> x" using b by (simp add: x_def)
  then have q0: "int q = x div (5 * Second)"
    using S by (simp add: q_def pos_imp_zdiv_nonneg_iff)
  have lo: "5 * Second * int q \<le> x"
    unfolding q0 using S by (metis mult.commute div_mult_mod_eq add_increasing2 pos_mod_sign order_refl)
  have hi: "x < 5 * Second * int k"
  proof -
    have "x = 5 * Second * (x div (5 * Second)) + x mod (5 * Second)" by simp
    moreover have "x mod (5 * Second) < 5 * Second" using S by (rule pos_mod_bound)
    ultimately have "x < 5 * Second * (x div (5 * Second)) + 5 * Second" by linarith
    then show ?thesis unfolding k_def q0 [symmetric] by (simp add: algebra_simps)
  qed
  have xn: "x < 5 * Second * int n" using b by (simp add: x_def)
  have kn: "k \<le> n"
  proof (rule ccontr)
    assume "\<not> k \<le> n"
    then have "n \<le> q" by (simp add: k_def)
    then have "5 * Second * int n \<le> 5 * Second * int q"
      using S by (simp add: mult_left_mono)
    then show False using lo xn by linarith
  qed
  have k1: "1 \<le> k" by (simp add: k_def)
  have live: "\<forall>ob \<in> set (ticks s called (k - 1)). live_tick ob"
  proof (rule ticks_live, intro allI impI)
    fix j assume "1 \<le> j \<and> j \<le> k - 1"
    then have "j \<le> q" by (simp add: k_def)
    then have "5 * Second * int j \<le> 5 * Second * int q"
      using S by (simp add: mult_left_mono)
    then show "called + 5 * Second * int j - last_active_at s \<le> 20 * Second"
      using lo by (simp add: x_def)
  qed
  have trip: "at_time (tick s called k) - last_active_at (seen (tick s called k)) > 20 * Second"
    using hi by (simp add: tick_def x_def)
  have w1: "Wait s (ticks s called (k - 1)) = Waiting"
    using b Wait_loop_live [OF live, of "[]"] by (simp add: Wait_def)
  have w: "Wait s (ticks s called (k - 1) @ tick s called k # rest) = Returned (Some ''plugin is not active'')"
    for rest
    using b trip Wait_loop_live [OF live, of "tick s called k # rest"]
    by (simp add: Wait_def) (simp add: tick_def)
  have w2: "Wait s (ticks s called k) = Returned (Some ''plugin is not active'')"
    using w [of "[]"] ticks_split [of k k s called] k1 by simp
  have w3: "Wait s (ticks s called n) = Returned (Some ''plugin is not active'')"
    using w ticks_split [OF k1 kn, of s called] by simp
  have up: "called + 5 * Second * int k \<le> last_active_at s + 25 * Second"
  proof -
    have "5 * Second * int k = 5 * Second * int q + 5 * Second"
      by (simp add: k_def algebra_simps)
    then show ?thesis using lo by (simp add: x_def)
  qed
  have dn: "last_active_at s + 20 * Second < called + 5 * Second * int k"
    using hi by (simp add: x_def)
  show "\<exists>k. 1 \<le> k \<and> k \<le> n
         \<and> Wait s (ticks s called (k - 1)) = Waiting
         \<and> Wait s (ticks s called k) = Returned (Some ''plugin is not active'')
         \<and> Wait s (ticks s called n) = Returned (Some ''plugin is not active'')
         \<and> last_active_at s + 20 * Second < called + 5 * Second * int k
         \<and> called + 5 * Second * int k \<le> last_active_at s + 25 * Second"
    using k1 kn w1 w2 w3 dn up by blast
qed

theorem Wait_polls_witness:
  "\<not> health_chan_closed fresh_holder
   \<and> Wait fresh_holder (ticks fresh_holder (2 * Second) 3) = Waiting
   \<and> Wait fresh_holder (ticks fresh_holder (2 * Second) 4) = Returned (Some ''plugin is not active'')
   \<and> Wait fresh_holder (ticks fresh_holder (2 * Second) 6) = Returned (Some ''plugin is not active'')
   \<and> last_active_at fresh_holder + 20 * Second < 2 * Second + 5 * Second * 4
   \<and> 2 * Second + 5 * Second * 4 \<le> last_active_at fresh_holder + 25 * Second
   \<and> Wait fresh_holder
        (ticks fresh_holder (2 * Second) 3 @ [sample_observed False HealthChan (18 * Second) boom_holder])
       = Returned (Some ''boom'')"
  using Wait_polls [where s = fresh_holder and called = "2 * Second" and n = 6
      and pre = "ticks fresh_holder (2 * Second) 3"
      and ob = "sample_observed False HealthChan (18 * Second) boom_holder" and rest = "[]"]
  by (simp add: eval_nat_numeral ticks_unfold tick_def Wait_def live_tick_def Error_def
      sample_observed_def boom_holder_def fresh_holder_def Second_def)

text \<open>
  C5 as stated fails at two runs. A waiter called 100 s after the last heartbeat, with the
  termination signal open, returns at its first tick, 105 s after the heartbeat and not
  within 25 s of it. And when the flag is found set at the top of the loop, \<open>Wait\<close>
  leaves the loop and returns \<open>nil\<close>, although the error ring reports \<open>boom\<close> at that
  moment.
\<close>

theorem Wait_polls_counterexample:
  "\<not> health_chan_closed fresh_holder
   \<and> Wait fresh_holder [] = Waiting
   \<and> Wait fresh_holder (ticks fresh_holder (100 * Second) 1) = Returned (Some ''plugin is not active'')
   \<and> last_active_at fresh_holder + 25 * Second < 100 * Second + 5 * Second * 1
   \<and> Error (3 * Second) boom_holder = Some ''boom''
   \<and> Wait fresh_holder [sample_observed True HealthChan (3 * Second) boom_holder] = Returned None"
  by (simp add: eval_nat_numeral ticks_unfold tick_def Wait_def Error_def
      sample_observed_def boom_holder_def fresh_holder_def Second_def)

end
